theory Spec2Isabelle
  imports Complex_Main "HOL-Library.Sublist" "HOL-Library.Word"
begin

section \<open>Python strings\<close>

text \<open>
  A Python \<open>str\<close> is a sequence of code points. The model uses \<^typ>\<open>string\<close> and reads
  a \<^typ>\<open>char\<close> as the code point of the same number, so it covers the strings whose code
  points lie below 256 (Latin-1). \<open>whitespace\<close> lists the code points below 256 for which
  \<open>str.isspace\<close> holds; \<open>str.strip()\<close> removes them at both ends.
\<close>

definition whitespace :: "char list" where
  "whitespace = [CHR 0x09, CHR 0x0A, CHR 0x0B, CHR 0x0C, CHR 0x0D, CHR 0x1C, CHR 0x1D,
     CHR 0x1E, CHR 0x1F, CHR 0x20, CHR 0x85, CHR 0xA0]"

definition isspace :: "char \<Rightarrow> bool" where
  "isspace c = (c \<in> set whitespace)"

definition strip :: "string \<Rightarrow> string" where
  "strip s = rev (dropWhile isspace (rev (dropWhile isspace s)))"

text \<open>\<open>sub in s\<close> on two strings: \<open>sub\<close> occurs in \<open>s\<close> as a contiguous substring.\<close>

definition startswith :: "string \<Rightarrow> string \<Rightarrow> bool" where
  "startswith s p = (take (length p) s = p)"

fun str_in :: "string \<Rightarrow> string \<Rightarrow> bool" where
  "str_in sub [] = (sub = [])"
| "str_in sub (c # cs) = (startswith (c # cs) sub \<or> str_in sub cs)"

text \<open>\<open>sep.join(parts)\<close>.\<close>

fun join :: "string \<Rightarrow> string list \<Rightarrow> string" where
  "join sep [] = []"
| "join sep [p] = p"
| "join sep (p # q # ps) = p @ sep @ join sep (q # ps)"

text \<open>\<open>s.split(sep)\<close> for a separator of one character: never the empty list.\<close>

fun split_on :: "char \<Rightarrow> string \<Rightarrow> string list" where
  "split_on sep [] = [[]]"
| "split_on sep (c # cs) =
     (if c = sep then [] # split_on sep cs
      else (case split_on sep cs of
              [] \<Rightarrow> [[c]]
            | w # ws \<Rightarrow> (c # w) # ws))"

section \<open>The parsed document\<close>

text \<open>
  The tree \<open>BeautifulSoup(resp.text, "lxml")\<close> builds. A \<open>Tag\<close> has a name, its
  \<open>class\<close> attribute (absent, or the list of class tokens the parser splits the value
  into: \<open>class\<close> is a multi-valued attribute), its other attributes with their string
  values, and its children. The soup object itself is a \<open>Tag\<close> named \<open>[document]\<close>.
\<close>

datatype node =
    Tag string "string list option" "(string \<times> string) list" "node list"
  | NavigableString string

text \<open>\<open>tag.descendants\<close>: every node below \<open>tag\<close>, in document order.\<close>

fun descendants :: "node \<Rightarrow> node list" where
  "descendants (Tag n c a kids) = concat (map (\<lambda>k. k # descendants k) kids)"
| "descendants (NavigableString s) = []"

text \<open>\<open>tag.get(key)\<close> for a single-valued attribute.\<close>

fun tag_get :: "node \<Rightarrow> string \<Rightarrow> string option" where
  "tag_get (Tag n c a kids) key = map_of a key"
| "tag_get (NavigableString s) key = None"

text \<open>
  How \<open>find\<close> and \<open>find_all\<close> match a keyword argument against an element.
  \<^item> \<open>class_=f\<close> with a function \<open>f\<close>: the element has no \<open>class\<close>, and \<open>f(None)\<close>
    decides; or \<open>f\<close> accepts one of the class tokens; or \<open>f\<close> accepts the tokens joined
    by single spaces.
  \<^item> \<open>property="og:image"\<close> with a string: the attribute is present and equal to it.
\<close>

fun class_matches :: "(string option \<Rightarrow> bool) \<Rightarrow> node \<Rightarrow> bool" where
  "class_matches f (Tag n None a kids) = f None"
| "class_matches f (Tag n (Some toks) a kids) =
     (list_ex (\<lambda>t. f (Some t)) toks \<or> f (Some (join '' '' toks)))"
| "class_matches f (NavigableString s) = False"

definition attr_is :: "string \<Rightarrow> string \<Rightarrow> node \<Rightarrow> bool" where
  "attr_is key v t = (tag_get t key = Some v)"

fun search_tag :: "string \<Rightarrow> (node \<Rightarrow> bool) \<Rightarrow> node \<Rightarrow> bool" where
  "search_tag nm crit (Tag n c a kids) = (n = nm \<and> crit (Tag n c a kids))"
| "search_tag nm crit (NavigableString s) = False"

text \<open>\<open>t0.find_all(nm, ...)\<close> and \<open>t0.find(nm, ...)\<close>, the latter its first element.\<close>

definition bs_find_all :: "node \<Rightarrow> string \<Rightarrow> (node \<Rightarrow> bool) \<Rightarrow> node list" where
  "bs_find_all t0 nm crit = filter (search_tag nm crit) (descendants t0)"

definition bs_find :: "node \<Rightarrow> string \<Rightarrow> (node \<Rightarrow> bool) \<Rightarrow> node option" where
  "bs_find t0 nm crit = (case bs_find_all t0 nm crit of [] \<Rightarrow> None | t # _ \<Rightarrow> Some t)"

section \<open>Extraction\<close>

text \<open>\<open>extract_og_image\<close>: a \<open>Tag\<close> is always true, a string is true when non-empty.\<close>

definition extract_og_image :: "node \<Rightarrow> string option" where
  "extract_og_image soup =
     (case bs_find soup ''meta'' (attr_is ''property'' ''og:image'') of
        None \<Rightarrow> None
      | Some tag \<Rightarrow>
          (case tag_get tag ''content'' of
             None \<Rightarrow> None
           | Some c \<Rightarrow> if c \<noteq> [] then Some (strip c) else None))"

definition required_classes :: "string list" where
  "required_classes = [''s_col'', ''col-md-6'', ''d-md-flex'', ''flex-column'', ''align-items-md-end'']"

text \<open>
  The three functions of \<open>extract_hero_image\<close> passed as \<open>class_\<close>:
  \<open>lambda c: c and all(rc in c for rc in required_classes)\<close> and
  \<open>lambda c: c and m in c\<close> for \<open>m\<close> one of \<open>s_col\<close>, \<open>no_lazy\<close>. The argument is
  \<open>None\<close> or a string, so that \<open>in\<close> is the substring test.
\<close>

definition has_required :: "string option \<Rightarrow> bool" where
  "has_required c =
     (case c of None \<Rightarrow> False | Some s \<Rightarrow> s \<noteq> [] \<and> list_all (\<lambda>rc. str_in rc s) required_classes)"

definition has_marker :: "string \<Rightarrow> string option \<Rightarrow> bool" where
  "has_marker m c = (case c of None \<Rightarrow> False | Some s \<Rightarrow> s \<noteq> [] \<and> str_in m s)"

text \<open>
  The block both strategies run on a container:
  \<open>img = box.find("img", class_=...); if img and img.get("src"): return img["src"].strip()\<close>;
  \<open>None\<close> stands for falling through.
\<close>

definition no_lazy_src :: "node \<Rightarrow> string option" where
  "no_lazy_src box =
     (case bs_find box ''img'' (class_matches (has_marker ''no_lazy'')) of
        None \<Rightarrow> None
      | Some img \<Rightarrow>
          (case tag_get img ''src'' of
             None \<Rightarrow> None
           | Some s \<Rightarrow> if s \<noteq> [] then Some (strip s) else None))"

text \<open>The loop of strategy 2 over the containers \<open>find_all\<close> returned.\<close>

fun fallback_scan :: "node list \<Rightarrow> string option" where
  "fallback_scan [] = None"
| "fallback_scan (d # ds) =
     (case no_lazy_src d of Some s \<Rightarrow> Some s | None \<Rightarrow> fallback_scan ds)"

definition extract_hero_image :: "node \<Rightarrow> string option" where
  "extract_hero_image soup =
     (let first_try =
            (case bs_find soup ''div'' (class_matches has_required) of
               None \<Rightarrow> None
             | Some container \<Rightarrow> no_lazy_src container)
      in case first_try of
           Some s \<Rightarrow> Some s
         | None \<Rightarrow> fallback_scan (bs_find_all soup ''div'' (class_matches (has_marker ''s_col''))))"

section \<open>The network and the state of a run\<close>

text \<open>
  \<open>requests.get(url, headers=HEADERS, timeout=REQUEST_TIMEOUT)\<close> followed by
  \<open>raise_for_status()\<close> is a question to the network: \<open>net t u\<close> is the outcome of the
  request number \<open>t\<close> of the run when it asks for \<open>u\<close>, the response or \<open>None\<close> when
  a \<open>requests.RequestException\<close> is raised (connection error, timeout, status that is not
  a success, URL that requests refuses). The same URL may be answered differently by two
  requests. An exception of another class is caught nowhere in the program and would end
  the run; it is not modelled.
\<close>

type_synonym bytes = "8 word list"

record response =
  resp_text :: string
  resp_content :: bytes

type_synonym network = "nat \<Rightarrow> string \<Rightarrow> response option"

text \<open>The result dict of \<open>scrape_images\<close>; \<open>status\<close> is a Python string.\<close>

record page_result =
  url :: string
  hero_image :: "string option"
  og_image :: "string option"
  status :: string

text \<open>
  What the caller can see besides the results: \<open>st.warning\<close> (with the URL),
  \<open>st.error\<close>, \<open>st.info\<close> (with the number of URLs and the delay), the two progress
  bars (numerator and denominator of the fraction shown) and \<open>time.sleep\<close>. A delay
  is a number of seconds, a rational here.
\<close>

datatype event =
    Warning string
  | ErrorMessage
  | Info nat rat
  | ScrapeProgress nat nat
  | DownloadProgress nat nat
  | Sleep rat

text \<open>
  The state of a run: the number of requests sent, the events so far, and the list
  \<open>results\<close> of \<open>main\<close>, the object \<open>build_zip\<close> receives.
\<close>

record state =
  clock :: nat
  events :: "event list"
  results :: "page_result list"

definition emit :: "event \<Rightarrow> state \<Rightarrow> state" where
  "emit e s = s\<lparr>events := events s @ [e]\<rparr>"

section \<open>Scraping\<close>

text \<open>\<open>fetch_page\<close>: the response, or \<open>None\<close> after a warning to the caller.\<close>

definition fetch_page :: "network \<Rightarrow> string \<Rightarrow> state \<Rightarrow> response option \<times> state" where
  "fetch_page net u s =
     (case net (clock s) u of
        Some resp \<Rightarrow> (Some resp, s\<lparr>clock := Suc (clock s)\<rparr>)
      | None \<Rightarrow> (None, emit (Warning u) (s\<lparr>clock := Suc (clock s)\<rparr>)))"

text \<open>\<open>parse\<close> stands for \<open>BeautifulSoup(text, "lxml")\<close>.\<close>

definition scrape_images ::
  "network \<Rightarrow> (string \<Rightarrow> node) \<Rightarrow> string \<Rightarrow> state \<Rightarrow> page_result \<times> state" where
  "scrape_images net parse u s =
     (let result = \<lparr>url = u, hero_image = None, og_image = None, status = ''pending''\<rparr>
      in case fetch_page net u s of
           (None, s') \<Rightarrow> (result\<lparr>status := ''error''\<rparr>, s')
         | (Some resp, s') \<Rightarrow>
             (let soup = parse (resp_text resp);
                  result1 = result\<lparr>hero_image := extract_hero_image soup\<rparr>;
                  result2 = result1\<lparr>og_image := extract_og_image soup\<rparr>
              in (result2\<lparr>status := ''ok''\<rparr>, s')))"

text \<open>Lines 213 to 217 of \<open>main\<close>, for one URL.\<close>

definition normalize_url :: "string \<Rightarrow> string" where
  "normalize_url u = (if \<not> startswith u ''http'' then ''https://'' @ u else u)"

text \<open>The loop of lines 225 to 235: \<open>idx\<close> and the URLs still to visit.\<close>

fun scrape_each ::
  "network \<Rightarrow> (string \<Rightarrow> node) \<Rightarrow> rat \<Rightarrow> nat \<Rightarrow> nat \<Rightarrow> string list \<Rightarrow> state \<Rightarrow> state" where
  "scrape_each net parse rate_limit ntotal idx [] s = s"
| "scrape_each net parse rate_limit ntotal idx (u # us) s =
     (let s1 = emit (ScrapeProgress idx ntotal) s
      in case scrape_images net parse u s1 of
           (result, s2) \<Rightarrow>
             (let s3 = s2\<lparr>results := results s2 @ [result]\<rparr>;
                  s4 = (if int idx < int ntotal - 1 then emit (Sleep rate_limit) s3 else s3)
              in scrape_each net parse rate_limit ntotal (Suc idx) us s4))"

text \<open>Lines 212 to 237: the scrape loop on the list \<open>raw_urls\<close>.\<close>

definition scrape_loop ::
  "network \<Rightarrow> (string \<Rightarrow> node) \<Rightarrow> string list \<Rightarrow> rat \<Rightarrow> state \<Rightarrow> state" where
  "scrape_loop net parse raw_urls rate_limit s =
     (let valid_urls = map normalize_url raw_urls;
          ntotal = length valid_urls;
          s1 = emit (Info ntotal rate_limit) s;
          s2 = emit (ScrapeProgress 0 1) s1;
          s3 = s2\<lparr>results := []\<rparr>;
          s4 = scrape_each net parse rate_limit ntotal 0 valid_urls s3
      in emit (ScrapeProgress 1 1) s4)"

text \<open>
  Lines 207 to 237, from the lines of the text area (\<open>url_text.splitlines()\<close>): blank
  lines are dropped, and \<open>main\<close> returns with an error message when nothing is left.
\<close>

definition main_scrape ::
  "network \<Rightarrow> (string \<Rightarrow> node) \<Rightarrow> string list \<Rightarrow> rat \<Rightarrow> state \<Rightarrow> state" where
  "main_scrape net parse text_lines rate_limit s =
     (let raw_urls = map strip (filter (\<lambda>u. strip u \<noteq> []) text_lines)
      in if raw_urls = [] then emit ErrorMessage s
         else scrape_loop net parse raw_urls rate_limit s)"

section \<open>File names\<close>

text \<open>
  \<open>urlparse(url).path\<close>, after \<open>urllib.parse\<close>: leading control characters and spaces
  and every tab, carriage return and line feed are removed; a scheme is split off at the
  first colon when what precedes it starts with an ASCII letter and consists of scheme
  characters; after \<open>//\<close> the network location runs to the first of \<open>/\<close>, \<open>?\<close>, \<open>#\<close>;
  the fragment, the query and (for the schemes of \<open>uses_params\<close>) the parameters of the
  last segment are cut off. \<open>urlsplit\<close> raises \<open>ValueError\<close> on a malformed bracketed
  host; the model covers the URLs on which it returns.
\<close>

definition of_c :: "char \<Rightarrow> nat" where
  "of_c c = of_char c"

definition ascii_alpha :: "char \<Rightarrow> bool" where
  "ascii_alpha c = ((65 \<le> of_c c \<and> of_c c \<le> 90) \<or> (97 \<le> of_c c \<and> of_c c \<le> 122))"

definition ascii_digit :: "char \<Rightarrow> bool" where
  "ascii_digit c = (48 \<le> of_c c \<and> of_c c \<le> 57)"

definition scheme_char :: "char \<Rightarrow> bool" where
  "scheme_char c = (ascii_alpha c \<or> ascii_digit c \<or> c \<in> set ''+-.'')"

definition ascii_lower :: "char \<Rightarrow> char" where
  "ascii_lower c = (if 65 \<le> of_c c \<and> of_c c \<le> 90 then char_of (of_c c + 32) else c)"

definition uses_params :: "string list" where
  "uses_params = ([] # [''ftp'', ''hdl'', ''prospero'', ''http'', ''imap'', ''https'', ''shttp'',
     ''rtsp'', ''rtsps'', ''rtspu'', ''sip'', ''sips'', ''mms'', ''sftp'', ''tel''])"

definition url_clean :: "string \<Rightarrow> string" where
  "url_clean u =
     filter (\<lambda>c. c \<notin> set [CHR 0x09, CHR 0x0D, CHR 0x0A]) (dropWhile (\<lambda>c. of_c c \<le> 32) u)"

definition split_scheme :: "string \<Rightarrow> string \<times> string" where
  "split_scheme u =
     (let pre = takeWhile (\<lambda>c. c \<noteq> CHR '':'') u
      in if CHR '':'' \<in> set u \<and> pre \<noteq> [] \<and> ascii_alpha (hd pre) \<and> list_all scheme_char pre
         then (map ascii_lower pre, drop (Suc (length pre)) u)
         else ([], u))"

definition splitnetloc_rest :: "string \<Rightarrow> string" where
  "splitnetloc_rest u =
     (if take 2 u = ''//'' then dropWhile (\<lambda>c. c \<notin> set ''/?#'') (drop 2 u) else u)"

definition splitparams_path :: "string \<Rightarrow> string" where
  "splitparams_path p =
     (if CHR ''/'' \<in> set p then
        (let tail = rev (takeWhile (\<lambda>c. c \<noteq> CHR ''/'') (rev p));
             front = take (length p - length tail) p
         in if CHR '';'' \<in> set tail then front @ takeWhile (\<lambda>c. c \<noteq> CHR '';'') tail else p)
      else takeWhile (\<lambda>c. c \<noteq> CHR '';'') p)"

definition urlparse_path :: "string \<Rightarrow> string" where
  "urlparse_path u =
     (case split_scheme (url_clean u) of
        (scheme, rest) \<Rightarrow>
          (let p = takeWhile (\<lambda>c. c \<noteq> CHR ''?'')
                     (takeWhile (\<lambda>c. c \<noteq> CHR ''#'') (splitnetloc_rest rest))
           in if scheme \<in> set uses_params \<and> CHR '';'' \<in> set p then splitparams_path p else p))"

text \<open>
  \<open>PurePosixPath(p).name\<close>: the last of the components of \<open>p\<close> between slashes that
  are neither empty nor a single dot, the empty string when there is none.
\<close>

definition posix_name :: "string \<Rightarrow> string" where
  "posix_name p =
     (case rev (filter (\<lambda>x. x \<noteq> [] \<and> x \<noteq> ''.'') (split_on (CHR ''/'') p)) of
        [] \<Rightarrow> []
      | x # _ \<Rightarrow> x)"

text \<open>
  \<open>\w\<close> in a pattern on \<open>str\<close>: the underscore and the alphanumeric code points, which
  below 256 are the ASCII letters and digits, the letters of Latin-1 and its superscript
  digits, ordinal indicators and fractions.
\<close>

definition word_char :: "char \<Rightarrow> bool" where
  "word_char c =
     (ascii_alpha c \<or> ascii_digit c \<or> c = CHR ''_'' \<or>
      of_c c \<in> set [170, 178, 179, 181, 185, 186, 188, 189, 190] \<or>
      (192 \<le> of_c c \<and> of_c c \<le> 214) \<or> (216 \<le> of_c c \<and> of_c c \<le> 246) \<or> 248 \<le> of_c c)"

text \<open>\<open>re.sub(r"[^\w\-]", "_", s)\<close>.\<close>

definition sub_unsafe :: "string \<Rightarrow> string" where
  "sub_unsafe s = map (\<lambda>c. if word_char c \<or> c = CHR ''-'' then c else CHR ''_'') s"

text \<open>\<open>_safe_filename\<close>; \<open>x or "page"\<close> is \<open>"page"\<close> when \<open>x\<close> is empty.\<close>

definition safe_filename :: "string \<Rightarrow> string \<Rightarrow> string \<Rightarrow> string" where
  "safe_filename img_url page_url sfx =
     (let page_slug0 = (let n = posix_name (urlparse_path page_url) in if n \<noteq> [] then n else ''page'');
          page_slug = sub_unsafe page_slug0;
          img_name = (let n = posix_name (urlparse_path img_url) in if n \<noteq> [] then n else ''image'')
      in page_slug @ ''__'' @ sfx @ ''__'' @ img_name)"

section \<open>Packaging\<close>

type_synonym image_task = "string \<times> string \<times> string"

text \<open>
  The archive \<open>zf\<close> as the entries written to it, in order; the bytes \<open>build_zip\<close>
  returns are the ZIP encoding of these entries.
\<close>

type_synonym zip_archive = "(string \<times> bytes) list"

text \<open>
  Lines 131 to 136: \<open>r.get("hero_image")\<close> is true for a string that is not empty.
\<close>

fun collect_tasks :: "page_result list \<Rightarrow> image_task list \<Rightarrow> image_task list" where
  "collect_tasks [] image_urls = image_urls"
| "collect_tasks (r # rs) image_urls =
     (let with_hero =
            (case hero_image r of
               None \<Rightarrow> image_urls
             | Some h \<Rightarrow> if h \<noteq> [] then image_urls @ [(h, url r, ''hero'')] else image_urls);
          with_og =
            (case og_image r of
               None \<Rightarrow> with_hero
             | Some g \<Rightarrow> if g \<noteq> [] then with_hero @ [(g, url r, ''og'')] else with_hero)
      in collect_tasks rs with_og)"

definition image_tasks :: "page_result list \<Rightarrow> image_task list" where
  "image_tasks rs = collect_tasks rs []"

text \<open>The loop of lines 143 to 155.\<close>

fun download_each ::
  "network \<Rightarrow> nat \<Rightarrow> nat \<Rightarrow> image_task list \<Rightarrow> zip_archive \<Rightarrow> state \<Rightarrow> zip_archive \<times> state" where
  "download_each net ntotal idx [] zf s = (zf, s)"
| "download_each net ntotal idx ((img_url, page_url, kind) # ts) zf s =
     (let s1 = emit (DownloadProgress (idx + 1) ntotal) s;
          s2 = s1\<lparr>clock := Suc (clock s1)\<rparr>;
          zf1 = (case net (clock s1) img_url of
                   None \<Rightarrow> zf
                 | Some img_resp \<Rightarrow>
                     zf @ [(safe_filename img_url page_url kind, resp_content img_resp)]);
          s3 = emit (Sleep (1 / 2)) s2
      in download_each net ntotal (Suc idx) ts zf1 s3)"

definition build_zip :: "network \<Rightarrow> state \<Rightarrow> zip_archive option \<times> state" where
  "build_zip net s =
     (let image_urls = image_tasks (results s)
      in if image_urls = [] then (None, s)
         else (case download_each net (length image_urls) 0 image_urls [] s of
                 (zf, s') \<Rightarrow> (Some zf, s')))"

section \<open>Notions used to state the properties\<close>

subsection \<open>Extraction\<close>

text \<open>A \<open>meta\<close> element whose \<open>property\<close> is \<open>og:image\<close>.\<close>

fun og_meta :: "node \<Rightarrow> bool" where
  "og_meta (Tag n c a kids) = (n = ''meta'' \<and> map_of a ''property'' = Some ''og:image'')"
| "og_meta (NavigableString s) = False"

text \<open>
  The OG image as the specification words it: the content of the first such element,
  trimmed, when it is not empty after trimming.
\<close>

definition og_image_claimed :: "node \<Rightarrow> string option" where
  "og_image_claimed soup =
     (case filter og_meta (descendants soup) of
        [] \<Rightarrow> None
      | tag # _ \<Rightarrow>
          (case tag_get tag ''content'' of
             None \<Rightarrow> None
           | Some c \<Rightarrow> if strip c \<noteq> [] then Some (strip c) else None))"

text \<open>
  The two-tier search for the hero image, for a given reading \<open>occurs m toks\<close> of
  when a class attribute with the tokens \<open>toks\<close> contains the marker \<open>m\<close>:
  \<^item> an element \<open>nm\<close> is marked by \<open>ms\<close> when it has a class attribute in which every
    marker of \<open>ms\<close> occurs;
  \<^item> the source of a container is the trimmed \<open>src\<close> of the first \<open>img\<close> in it marked
    by \<open>no_lazy\<close>, when that \<open>src\<close> is present and not empty;
  \<^item> the first \<open>div\<close> marked by the five classes gives its source; failing that, the
    first \<open>div\<close> marked by \<open>s_col\<close> that has a source gives it.
  The specification reads the markers as class tokens (\<open>as_token\<close>); the other reading
  is that a marker occurs inside some token (\<open>in_token\<close>).
\<close>

fun marked :: "(string \<Rightarrow> string list \<Rightarrow> bool) \<Rightarrow> string \<Rightarrow> string list \<Rightarrow> node \<Rightarrow> bool" where
  "marked occurs nm ms (Tag n c a kids) =
     (n = nm \<and> (case c of None \<Rightarrow> False | Some toks \<Rightarrow> list_all (\<lambda>m. occurs m toks) ms))"
| "marked occurs nm ms (NavigableString s) = False"

definition as_token :: "string \<Rightarrow> string list \<Rightarrow> bool" where
  "as_token m toks = (m \<in> set toks)"

definition in_token :: "string \<Rightarrow> string list \<Rightarrow> bool" where
  "in_token m toks = list_ex (str_in m) toks"

definition first_no_lazy_src :: "(string \<Rightarrow> string list \<Rightarrow> bool) \<Rightarrow> node \<Rightarrow> string option" where
  "first_no_lazy_src occurs box =
     (case filter (marked occurs ''img'' [''no_lazy'']) (descendants box) of
        [] \<Rightarrow> None
      | img # _ \<Rightarrow>
          (case tag_get img ''src'' of
             None \<Rightarrow> None
           | Some s \<Rightarrow> if s = [] then None else Some (strip s)))"

definition two_tier :: "(string \<Rightarrow> string list \<Rightarrow> bool) \<Rightarrow> node \<Rightarrow> string option" where
  "two_tier occurs soup =
     (case (case filter (marked occurs ''div'' required_classes) (descendants soup) of
              [] \<Rightarrow> None
            | box # _ \<Rightarrow> first_no_lazy_src occurs box) of
        Some s \<Rightarrow> Some s
      | None \<Rightarrow>
          (case filter (\<lambda>r. r \<noteq> None)
                  (map (first_no_lazy_src occurs)
                     (filter (marked occurs ''div'' [''s_col'']) (descendants soup))) of
             [] \<Rightarrow> None
           | r # _ \<Rightarrow> r))"

subsection \<open>Scraping\<close>

text \<open>
  The result \<open>scrape_images\<close> builds for \<open>u\<close> from the outcome of its request.
\<close>

definition page_result_of :: "(string \<Rightarrow> node) \<Rightarrow> string \<Rightarrow> response option \<Rightarrow> page_result" where
  "page_result_of parse u r =
     (case r of
        None \<Rightarrow> \<lparr>url = u, hero_image = None, og_image = None, status = ''error''\<rparr>
      | Some resp \<Rightarrow>
          \<lparr>url = u, hero_image = extract_hero_image (parse (resp_text resp)),
           og_image = extract_og_image (parse (resp_text resp)), status = ''ok''\<rparr>)"

subsection \<open>File names and packaging\<close>




text \<open>
  The task list as the specification words it: a task for every image field that is
  present.
\<close>

definition tasks_claimed :: "page_result list \<Rightarrow> image_task list" where
  "tasks_claimed rs =
     concat (map (\<lambda>r.
       (case hero_image r of None \<Rightarrow> [] | Some h \<Rightarrow> [(h, url r, ''hero'')]) @
       (case og_image r of None \<Rightarrow> [] | Some g \<Rightarrow> [(g, url r, ''og'')])) rs)"

text \<open>
  The entries of the archive for a task list whose first download is the request number
  \<open>t0\<close>: one entry for each task whose download succeeds, in the order of the tasks.
\<close>

definition entries_of :: "network \<Rightarrow> nat \<Rightarrow> image_task list \<Rightarrow> zip_archive" where
  "entries_of net t0 tasks =
     concat (map (\<lambda>(t, img_url, page_url, kind).
         case net t img_url of
           None \<Rightarrow> []
         | Some r \<Rightarrow> [(safe_filename img_url page_url kind, resp_content r)])
       (enumerate t0 tasks))"


subsection \<open>Sample inputs\<close>

text \<open>A page with the known layout and an \<open>og:image\<close> whose content has spaces around it.\<close>

definition sample_page :: node where
  "sample_page =
     Tag ''[document]'' None []
       [Tag ''html'' None []
          [Tag ''head'' None []
             [Tag ''meta'' None [(''property'', ''og:image''), (''content'', '' https://x/img.png '')] []],
           Tag ''body'' None []
             [Tag ''div'' (Some [''s_col'', ''col-md-6'', ''d-md-flex'', ''flex-column'',
                                 ''align-items-md-end'', ''extra-token'']) []
                [NavigableString ''hi'',
                 Tag ''img'' (Some [''no_lazy'', ''extra'']) [(''src'', ''https://x/hero.jpg'')] []]]]]"

text \<open>
  A page on which a first container carries \<open>s_col_no_bgcolor\<close> instead of \<open>s_col\<close>,
  before the container with the five classes.
\<close>

definition drifted_page :: node where
  "drifted_page =
     Tag ''[document]'' None []
       [Tag ''div'' (Some [''s_col_no_bgcolor'', ''col-md-6'', ''d-md-flex'', ''flex-column'',
                           ''align-items-md-end'']) []
          [Tag ''img'' (Some [''no_lazy'']) [(''src'', ''https://x/other.jpg'')] []],
        Tag ''div'' (Some [''s_col'', ''col-md-6'', ''d-md-flex'', ''flex-column'',
                           ''align-items-md-end'']) []
          [Tag ''img'' (Some [''no_lazy'']) [(''src'', ''https://x/hero.jpg'')] []]]"

text \<open>A page whose \<open>og:image\<close> content is one space, and one whose hero \<open>src\<close> is.\<close>

definition blank_og_page :: node where
  "blank_og_page =
     Tag ''[document]'' None []
       [Tag ''meta'' None [(''property'', ''og:image''), (''content'', '' '')] []]"

definition blank_src_page :: node where
  "blank_src_page =
     Tag ''[document]'' None []
       [Tag ''div'' (Some [''s_col'']) []
          [Tag ''img'' (Some [''no_lazy'']) [(''src'', '' '')] []]]"

definition sample_parse :: "string \<Rightarrow> node" where
  "sample_parse txt = (if txt = ''<a>'' then sample_page else Tag ''[document]'' None [] [])"

definition blank_src_parse :: "string \<Rightarrow> node" where
  "blank_src_parse txt = blank_src_page"

text \<open>
  A network on which \<open>https://a.com/p\<close> always answers and \<open>http://b.org\<close> answers
  except to the request number 1; one that answers the same at all times; one that serves
  a single image; and one on which every request fails.
\<close>

definition sample_net :: network where
  "sample_net t u =
     (if u = ''https://a.com/p'' then Some \<lparr>resp_text = ''<a>'', resp_content = []\<rparr>
      else if u = ''http://b.org'' \<and> t \<noteq> 1 then Some \<lparr>resp_text = ''<b>'', resp_content = []\<rparr>
      else None)"

definition steady_net :: network where
  "steady_net t u =
     (if u = ''https://a.com/p'' then Some \<lparr>resp_text = ''<a>'', resp_content = []\<rparr> else None)"


definition dead_net :: network where
  "dead_net t u = None"

definition start :: state where
  "start = \<lparr>clock = 0, events = [], results = []\<rparr>"

text \<open>The state after one page was scraped, with both images found.\<close>

definition scraped :: state where
  "scraped = \<lparr>clock = 1, events = [],
     results = [\<lparr>url = ''https://a.com/p'', hero_image = Some ''https://x/hero.jpg'',
                 og_image = Some ''https://x/img.png'', status = ''ok''\<rparr>]\<rparr>"


section \<open>Properties of the extraction\<close>

subsection \<open>How the class functions match\<close>

lemma startswith_prefix: "startswith s p = prefix p s"
proof
  assume "startswith s p"
  then have "p = take (length p) s"
    by (simp add: startswith_def)
  then show "prefix p s"
    by (metis take_is_prefix)
next
  assume "prefix p s"
  then obtain r where "s = p @ r"
    by (auto simp add: prefix_def)
  then show "startswith s p"
    by (simp add: startswith_def)
qed

lemma str_in_sublist: "str_in m s = sublist m s"
  by (induction s) (simp_all add: startswith_prefix sublist_Cons_right)

text \<open>A string without \<open>x\<close> that occurs in \<open>ys @ x # zs\<close> occurs on one side of \<open>x\<close>.\<close>

lemma sublist_sep:
  assumes "x \<notin> set m"
  shows "sublist m (ys @ x # zs) = (sublist m ys \<or> sublist m zs)"
proof
  assume "sublist m (ys @ x # zs)"
  then consider "sublist m ys" | "sublist m (x # zs)"
    | xs1 xs2 where "m = xs1 @ xs2" "suffix xs1 ys" "prefix xs2 (x # zs)"
    by (auto simp add: sublist_append)
  then show "sublist m ys \<or> sublist m zs"
  proof cases
    case 1
    then show ?thesis by simp
  next
    case 2
    then have "prefix m (x # zs) \<or> sublist m zs"
      by (simp add: sublist_Cons_right)
    with assms show ?thesis
      by (auto simp add: prefix_Cons)
  next
    case 3
    with assms have "xs2 = []"
      by (auto simp add: prefix_Cons)
    with 3 show ?thesis
      by (auto intro: suffix_imp_sublist)
  qed
next
  assume "sublist m ys \<or> sublist m zs"
  then show "sublist m (ys @ x # zs)"
  proof
    assume "sublist m ys"
    then show ?thesis by (simp add: sublist_append)
  next
    assume "sublist m zs"
    then have "sublist m (x # zs)"
      by (simp add: sublist_Cons_right)
    then show ?thesis by (simp add: sublist_append)
  qed
qed

text \<open>
  A marker without a space occurs in the class tokens joined by spaces exactly when it
  occurs in one of the tokens.
\<close>

lemma str_in_join:
  assumes "CHR '' '' \<notin> set m" and "m \<noteq> []"
  shows "str_in m (join '' '' toks) = list_ex (str_in m) toks"
proof (induction toks)
  case Nil
  from assms show ?case by simp
next
  case (Cons p ps)
  show ?case
  proof (cases ps)
    case Nil
    then show ?thesis by simp
  next
    case (Cons q qs)
    then have "join '' '' (p # ps) = p @ CHR '' '' # join '' '' ps"
      by simp
    then have "str_in m (join '' '' (p # ps)) = (str_in m p \<or> str_in m (join '' '' ps))"
      using assms(1) by (simp add: str_in_sublist sublist_sep)
    with Cons.IH show ?thesis
      by simp
  qed
qed

lemma str_in_nonempty: "str_in m s \<Longrightarrow> m \<noteq> [] \<Longrightarrow> s \<noteq> []"
  by (cases s) auto

lemma has_marker_class:
  assumes "CHR '' '' \<notin> set m" and "m \<noteq> []"
  shows "class_matches (has_marker m) (Tag n c a kids) =
           (case c of None \<Rightarrow> False | Some toks \<Rightarrow> in_token m toks)"
proof (cases c)
  case None
  then show ?thesis by (simp add: has_marker_def)
next
  case (Some toks)
  have tok: "has_marker m (Some t) = str_in m t" for t
    using assms(2) str_in_nonempty [of m t] by (auto simp add: has_marker_def)
  have "class_matches (has_marker m) (Tag n (Some toks) a kids) =
      (list_ex (str_in m) toks \<or> str_in m (join '' '' toks))"
    by (simp add: tok)
  also have "\<dots> = list_ex (str_in m) toks"
    using assms by (simp add: str_in_join)
  finally show ?thesis
    using Some by (simp add: in_token_def)
qed

lemma has_required_class:
  "class_matches has_required (Tag n c a kids) =
     (case c of None \<Rightarrow> False | Some toks \<Rightarrow> list_all (\<lambda>m. in_token m toks) required_classes)"
proof (cases c)
  case None
  then show ?thesis by (simp add: has_required_def)
next
  case (Some toks)
  have spaces: "\<forall>m \<in> set required_classes. CHR '' '' \<notin> set m \<and> m \<noteq> []"
    by (simp add: required_classes_def)
  have joined: "has_required (Some (join '' '' toks)) =
      list_all (\<lambda>m. in_token m toks) required_classes"
  proof -
    have "list_all (\<lambda>rc. str_in rc (join '' '' toks)) required_classes =
        list_all (\<lambda>m. in_token m toks) required_classes"
      using spaces by (simp add: list_all_iff str_in_join in_token_def)
    moreover have "list_all (\<lambda>rc. str_in rc (join '' '' toks)) required_classes \<Longrightarrow>
        join '' '' toks \<noteq> []"
      using str_in_nonempty [of "''s_col''" "join '' '' toks"]
      by (simp add: required_classes_def)
    ultimately show ?thesis
      by (auto simp add: has_required_def)
  qed
  have one: "list_all (\<lambda>m. in_token m toks) required_classes"
    if "t \<in> set toks" "has_required (Some t)" for t
    using that by (auto simp add: has_required_def list_all_iff in_token_def list_ex_iff)
  have "class_matches has_required (Tag n (Some toks) a kids) =
      (list_ex (\<lambda>t. has_required (Some t)) toks \<or> has_required (Some (join '' '' toks)))"
    by simp
  also have "\<dots> = list_all (\<lambda>m. in_token m toks) required_classes"
    using one joined by (auto simp add: list_ex_iff)
  finally show ?thesis
    using Some by simp
qed

lemma search_div_required:
  "search_tag ''div'' (class_matches has_required) = marked in_token ''div'' required_classes"
proof
  fix t
  show "search_tag ''div'' (class_matches has_required) t = marked in_token ''div'' required_classes t"
    by (cases t) (simp_all add: has_required_class)
qed

lemma search_marker:
  assumes "CHR '' '' \<notin> set m" and "m \<noteq> []"
  shows "search_tag nm (class_matches (has_marker m)) = marked in_token nm [m]"
proof
  fix t
  show "search_tag nm (class_matches (has_marker m)) t = marked in_token nm [m] t"
    using assms by (cases t) (simp_all add: has_marker_class split: option.split)
qed

lemma no_lazy_src_first: "no_lazy_src box = first_no_lazy_src in_token box"
  by (simp add: no_lazy_src_def first_no_lazy_src_def bs_find_def bs_find_all_def search_marker
      split: list.split option.split)

lemma fallback_scan_first:
  "fallback_scan ds =
     (case filter (\<lambda>r. r \<noteq> None) (map no_lazy_src ds) of [] \<Rightarrow> None | r # _ \<Rightarrow> r)"
  by (induction ds) (auto split: option.split)

subsection \<open>The hero image\<close>

text \<open>
  What \<open>extract_hero_image\<close> computes is the two-tier search in which a marker counts
  as soon as it occurs inside some class token.
\<close>

lemma extract_hero_image_two_tier: "extract_hero_image soup = two_tier in_token soup"
proof -
  have "bs_find_all soup ''div'' (class_matches (has_marker ''s_col'')) =
      filter (marked in_token ''div'' [''s_col'']) (descendants soup)"
    by (simp add: bs_find_all_def search_marker)
  moreover have "bs_find soup ''div'' (class_matches has_required) =
      (case filter (marked in_token ''div'' required_classes) (descendants soup) of
         [] \<Rightarrow> None | box # _ \<Rightarrow> Some box)"
    by (simp add: bs_find_def bs_find_all_def search_div_required)
  moreover have "no_lazy_src = first_no_lazy_src in_token"
    by (rule ext) (rule no_lazy_src_first)
  ultimately show ?thesis
    by (simp add: extract_hero_image_def two_tier_def fallback_scan_first
        split: list.split option.split)
qed

text \<open>A class token contains itself: every element the token reading marks, the code marks.\<close>

lemma token_in_token: "as_token m toks \<Longrightarrow> in_token m toks"
  by (auto simp add: as_token_def in_token_def list_ex_iff str_in_sublist)

text \<open>
  Claim C1, at a page the code answers differently from the claim. On \<open>drifted_page\<close>
  the first container has no class token \<open>s_col\<close>, only \<open>s_col_no_bgcolor\<close>; the
  second has the five tokens. The two-tier search on class tokens returns the image of
  the second container; \<open>extract_hero_image\<close> takes the first container for the match
  and returns its image.
\<close>

theorem hero_marker_inside_token:
  "extract_hero_image drifted_page = Some ''https://x/other.jpg'' \<and>
   two_tier as_token drifted_page = Some ''https://x/hero.jpg''"
  by code_simp

subsection \<open>The OG image\<close>

lemma og_meta_search: "search_tag ''meta'' (attr_is ''property'' ''og:image'') = og_meta"
proof
  fix t
  show "search_tag ''meta'' (attr_is ''property'' ''og:image'') t = og_meta t"
    by (cases t) (auto simp add: attr_is_def)
qed

text \<open>
  Claim C2, amended. Only the first \<open>meta\<close> element in document order whose
  \<open>property\<close> is \<open>og:image\<close> is considered, and the result is its trimmed content
  exactly when the content is present and not empty before trimming: there is no result
  when there is no such element, no content, or an empty content, and a content of
  whitespace only gives the empty string.
\<close>

theorem extract_og_image_first_meta:
  "extract_og_image soup =
     (case filter og_meta (descendants soup) of
        [] \<Rightarrow> None
      | tag # _ \<Rightarrow>
          (case tag_get tag ''content'' of
             None \<Rightarrow> None
           | Some c \<Rightarrow> if c = [] then None else Some (strip c)))"
proof (cases "filter og_meta (descendants soup)")
  case Nil
  then have "bs_find soup ''meta'' (attr_is ''property'' ''og:image'') = None"
    by (simp add: bs_find_def bs_find_all_def og_meta_search)
  with Nil show ?thesis
    by (simp add: extract_og_image_def)
next
  case (Cons tag rest)
  then have "bs_find soup ''meta'' (attr_is ''property'' ''og:image'') = Some tag"
    by (simp add: bs_find_def bs_find_all_def og_meta_search)
  with Cons show ?thesis
    by (simp add: extract_og_image_def split: option.split)
qed

theorem extract_og_image_first_meta_witness:
  "extract_og_image sample_page = Some ''https://x/img.png''"
  using extract_og_image_first_meta [of sample_page]
  by (simp add: sample_page_def strip_def isspace_def whitespace_def)

text \<open>
  Claim C2 as stated fails on a content of one space: the content is empty after
  trimming, and the code returns the empty string, not \<open>None\<close>.
\<close>

theorem og_image_whitespace_counterexample:
  "extract_og_image blank_og_page = Some [] \<and> og_image_claimed blank_og_page = None"
  by (simp add: extract_og_image_def og_image_claimed_def blank_og_page_def bs_find_def
      bs_find_all_def attr_is_def strip_def isspace_def whitespace_def)

section \<open>Properties of the scrape loop\<close>

lemma fetch_page_fst: "fst (fetch_page net u s) = net (clock s) u"
  by (simp add: fetch_page_def split: option.split)

lemma fetch_page_clock: "clock (snd (fetch_page net u s)) = Suc (clock s)"
  by (simp add: fetch_page_def emit_def split: option.split)

lemma fetch_page_results: "results (snd (fetch_page net u s)) = results s"
  by (simp add: fetch_page_def emit_def split: option.split)

lemma scrape_images_fst:
  "fst (scrape_images net parse u s) = page_result_of parse u (net (clock s) u)"
proof (cases "fetch_page net u s")
  case (Pair r s')
  then have "r = net (clock s) u"
    using fetch_page_fst [of net u s] by simp
  with Pair show ?thesis
    by (cases "net (clock s) u") (simp_all add: scrape_images_def page_result_of_def Let_def)
qed

lemma scrape_images_snd: "snd (scrape_images net parse u s) = snd (fetch_page net u s)"
  by (cases "fetch_page net u s") (simp add: scrape_images_def Let_def split: option.split)

lemma emit_clock: "clock (emit e s) = clock s"
  by (simp add: emit_def)

lemma emit_results: "results (emit e s) = results s"
  by (simp add: emit_def)

text \<open>
  Each turn of the loop sends one request and appends one result: the results the loop
  adds are those of the URLs, each from the request of its own turn.
\<close>

lemma scrape_each_results:
  "results (scrape_each net parse rl tot idx us s) =
     results s @ map (\<lambda>(t, u). page_result_of parse u (net t u)) (enumerate (clock s) us)"
proof (induction us arbitrary: idx s)
  case Nil
  show ?case by simp
next
  case (Cons u us)
  let ?s1 = "emit (ScrapeProgress idx tot) s"
  obtain r s2 where step: "scrape_images net parse u ?s1 = (r, s2)"
    by (cases "scrape_images net parse u ?s1")
  have r: "r = page_result_of parse u (net (clock s) u)"
    using scrape_images_fst [of net parse u ?s1] step by (simp add: emit_clock)
  have s2: "clock s2 = Suc (clock s)" "results s2 = results s"
    using scrape_images_snd [of net parse u ?s1] step
      fetch_page_clock [of net u ?s1] fetch_page_results [of net u ?s1]
    by (simp_all add: emit_clock emit_results)
  let ?s3 = "s2\<lparr>results := results s2 @ [r]\<rparr>"
  let ?s4 = "if int idx < int tot - 1 then emit (Sleep rl) ?s3 else ?s3"
  have s4: "clock ?s4 = Suc (clock s)" "results ?s4 = results s @ [r]"
    using s2 by (simp_all add: emit_clock emit_results)
  have "scrape_each net parse rl tot idx (u # us) s = scrape_each net parse rl tot (Suc idx) us ?s4"
    using step by (simp add: Let_def)
  then show ?case
    using Cons.IH [of "Suc idx" ?s4] s4 r by (simp del: scrape_each.simps)
qed

lemma scrape_loop_results:
  "results (scrape_loop net parse raw_urls rl s) =
     map (\<lambda>(t, u). page_result_of parse u (net t u)) (enumerate (clock s) (map normalize_url raw_urls))"
  by (simp add: scrape_loop_def Let_def emit_results scrape_each_results emit_clock)

lemma url_page_result_of: "url (page_result_of parse u r) = u"
  by (cases r) (simp_all add: page_result_of_def)

lemma scrape_loop_length:
  "length (results (scrape_loop net parse raw_urls rl s)) = length raw_urls"
  by (simp add: scrape_loop_results)

lemma scrape_loop_nth:
  assumes "i < length raw_urls"
  shows "results (scrape_loop net parse raw_urls rl s) ! i =
           page_result_of parse (normalize_url (raw_urls ! i))
             (net (clock s + i) (normalize_url (raw_urls ! i)))"
  using assms by (simp add: scrape_loop_results nth_enumerate_eq)

lemma page_result_of_text:
  assumes "map_option resp_text r = map_option resp_text r'"
  shows "page_result_of parse u r = page_result_of parse u r'"
  using assms by (cases r; cases r') (simp_all add: page_result_of_def)

text \<open>
  Claim C3. For every list of URLs, the empty list and lists with repetitions included,
  the scrape loop leaves in \<open>results\<close> one result per URL of the list, in the order of
  the list, and the \<open>url\<close> of each is the URL itself when it starts with \<open>http\<close> and
  \<open>https://\<close> followed by it otherwise.
\<close>

theorem scrape_loop_one_result_per_url:
  "length (results (scrape_loop net parse raw_urls rl s)) = length raw_urls \<and>
   map url (results (scrape_loop net parse raw_urls rl s)) =
     map (\<lambda>u. if startswith u ''http'' then u else ''https://'' @ u) raw_urls"
proof
  show "length (results (scrape_loop net parse raw_urls rl s)) = length raw_urls"
    by (rule scrape_loop_length)
next
  have "map url (results (scrape_loop net parse raw_urls rl s)) = map normalize_url raw_urls"
    by (rule nth_equalityI) (simp_all add: scrape_loop_length scrape_loop_nth url_page_result_of)
  also have "\<dots> = map (\<lambda>u. if startswith u ''http'' then u else ''https://'' @ u) raw_urls"
    by (simp add: normalize_url_def)
  finally show "map url (results (scrape_loop net parse raw_urls rl s)) =
      map (\<lambda>u. if startswith u ''http'' then u else ''https://'' @ u) raw_urls" .
qed

theorem scrape_loop_one_result_per_url_witness:
  "map url (results (scrape_loop sample_net sample_parse
       [''a.com/p'', ''http://b.org'', ''a.com/p'', ''http://b.org''] 1 start)) =
     [''https://a.com/p'', ''http://b.org'', ''https://a.com/p'', ''http://b.org''] \<and>
   results (scrape_loop sample_net sample_parse [] 1 start) = []"
  using scrape_loop_one_result_per_url [of sample_net sample_parse
      "[''a.com/p'', ''http://b.org'', ''a.com/p'', ''http://b.org'']" 1 start]
    scrape_loop_one_result_per_url [of sample_net sample_parse "[]" 1 start]
  by (simp add: startswith_def)

text \<open>
  From the text area: \<open>main\<close> runs the loop on the lines that are not blank, trimmed,
  and stops with the error message, before any request, when there is none.
\<close>

lemma main_scrape_cases:
  "main_scrape net parse text_lines rl s =
     (if list_all (\<lambda>u. strip u = []) text_lines then emit ErrorMessage s
      else scrape_loop net parse (map strip (filter (\<lambda>u. strip u \<noteq> []) text_lines)) rl s)"
proof -
  have "(filter (\<lambda>u. strip u \<noteq> []) text_lines = []) = list_all (\<lambda>u. strip u = []) text_lines"
    by (induction text_lines) simp_all
  then show ?thesis
    by (simp add: main_scrape_def Let_def)
qed

text \<open>
  Claim C4. When the request for one URL of the list fails, the result at its place
  has the status \<open>error\<close> and no image, and the loop goes on: there is a result for
  every URL of the list, each the one its own request gives.
\<close>

theorem failed_fetch_gives_error_result:
  assumes "i < length raw_urls"
    and "net (clock s + i) (normalize_url (raw_urls ! i)) = None"
  shows "results (scrape_loop net parse raw_urls rl s) ! i =
           \<lparr>url = normalize_url (raw_urls ! i), hero_image = None, og_image = None,
            status = ''error''\<rparr> \<and>
         length (results (scrape_loop net parse raw_urls rl s)) = length raw_urls \<and>
         (\<forall>j < length raw_urls.
            results (scrape_loop net parse raw_urls rl s) ! j =
              page_result_of parse (normalize_url (raw_urls ! j))
                (net (clock s + j) (normalize_url (raw_urls ! j))))"
proof (intro conjI allI impI)
  show "results (scrape_loop net parse raw_urls rl s) ! i =
      \<lparr>url = normalize_url (raw_urls ! i), hero_image = None, og_image = None,
       status = ''error''\<rparr>"
    using assms by (simp add: scrape_loop_nth page_result_of_def)
next
  show "length (results (scrape_loop net parse raw_urls rl s)) = length raw_urls"
    by (rule scrape_loop_length)
next
  fix j
  assume "j < length raw_urls"
  then show "results (scrape_loop net parse raw_urls rl s) ! j =
      page_result_of parse (normalize_url (raw_urls ! j))
        (net (clock s + j) (normalize_url (raw_urls ! j)))"
    by (rule scrape_loop_nth)
qed

theorem failed_fetch_gives_error_result_witness:
  "results (scrape_loop sample_net sample_parse
       [''a.com/p'', ''http://b.org'', ''a.com/p'', ''http://b.org''] 1 start) ! 1 =
     \<lparr>url = ''http://b.org'', hero_image = None, og_image = None, status = ''error''\<rparr> \<and>
   length (results (scrape_loop sample_net sample_parse
       [''a.com/p'', ''http://b.org'', ''a.com/p'', ''http://b.org''] 1 start)) = 4"
proof -
  let ?urls = "[''a.com/p'', ''http://b.org'', ''a.com/p'', ''http://b.org'']"
  have i: "(1::nat) < length ?urls"
    by simp
  have fails: "sample_net (clock start + 1) (normalize_url (?urls ! 1)) = None"
    by (simp add: sample_net_def normalize_url_def startswith_def start_def)
  show ?thesis
    using failed_fetch_gives_error_result
      [where i = 1 and raw_urls = ?urls and net = sample_net and s = start
         and parse = sample_parse and rl = 1] i fails
    by (simp add: normalize_url_def startswith_def)
qed

text \<open>
  Claim C8. Two runs of the scrape loop on the same list of URLs, in which the requests
  at the same places of the list have the same outcome (both fail, or both bring the same
  page text), leave the same results, whatever the two states at the start and the two
  delays.
\<close>

theorem scrape_loop_same_pages_same_results:
  assumes "\<forall>i < length raw_urls.
             map_option resp_text (net (clock s + i) (normalize_url (raw_urls ! i))) =
             map_option resp_text (net' (clock s' + i) (normalize_url (raw_urls ! i)))"
  shows "results (scrape_loop net parse raw_urls rl s) =
         results (scrape_loop net' parse raw_urls rl' s')"
proof (rule nth_equalityI)
  show "length (results (scrape_loop net parse raw_urls rl s)) =
      length (results (scrape_loop net' parse raw_urls rl' s'))"
    by (simp add: scrape_loop_length)
next
  fix i
  assume "i < length (results (scrape_loop net parse raw_urls rl s))"
  then have i: "i < length raw_urls"
    by (simp add: scrape_loop_length)
  with assms have "page_result_of parse (normalize_url (raw_urls ! i))
        (net (clock s + i) (normalize_url (raw_urls ! i))) =
      page_result_of parse (normalize_url (raw_urls ! i))
        (net' (clock s' + i) (normalize_url (raw_urls ! i)))"
    by (intro page_result_of_text) simp
  with i show "results (scrape_loop net parse raw_urls rl s) ! i =
      results (scrape_loop net' parse raw_urls rl' s') ! i"
    by (simp add: scrape_loop_nth)
qed

theorem scrape_loop_same_pages_same_results_witness:
  "results (scrape_loop steady_net sample_parse [''a.com/p'', ''b.org'', ''a.com/p''] 2
       (scrape_loop steady_net sample_parse [''a.com/p'', ''b.org'', ''a.com/p''] 1 start)) =
   results (scrape_loop steady_net sample_parse [''a.com/p'', ''b.org'', ''a.com/p''] 1 start)"
proof -
  let ?urls = "[''a.com/p'', ''b.org'', ''a.com/p'']"
  let ?after = "scrape_loop steady_net sample_parse ?urls 1 start"
  have same: "\<forall>i < length ?urls.
      map_option resp_text (steady_net (clock ?after + i) (normalize_url (?urls ! i))) =
      map_option resp_text (steady_net (clock start + i) (normalize_url (?urls ! i)))"
    by (simp add: steady_net_def)
  show ?thesis
    using scrape_loop_same_pages_same_results [OF same, of sample_parse 2 1] .
qed

text \<open>
  Claim C10. The result \<open>scrape_images\<close> returns has the status \<open>ok\<close> or \<open>error\<close>,
  never the initial \<open>pending\<close>, and it is \<open>ok\<close> exactly when the request for the page
  succeeded.
\<close>

theorem scrape_images_status:
  "(status (fst (scrape_images net parse u s)) = ''ok'' \<or>
    status (fst (scrape_images net parse u s)) = ''error'') \<and>
   status (fst (scrape_images net parse u s)) \<noteq> ''pending'' \<and>
   (status (fst (scrape_images net parse u s)) = ''ok'') = (net (clock s) u \<noteq> None)"
proof (cases "net (clock s) u")
  case None
  then show ?thesis
    by (simp add: scrape_images_fst page_result_of_def)
next
  case (Some resp)
  then show ?thesis
    by (simp add: scrape_images_fst page_result_of_def)
qed

theorem scrape_images_status_witness:
  "status (fst (scrape_images sample_net sample_parse ''https://a.com/p'' start)) = ''ok'' \<and>
   status (fst (scrape_images sample_net sample_parse ''https://nowhere'' start)) = ''error''"
  using scrape_images_status [of sample_net sample_parse "''https://a.com/p''" start]
    scrape_images_status [of sample_net sample_parse "''https://nowhere''" start]
  by (auto simp add: sample_net_def)

section \<open>Properties of the file names\<close>












section \<open>Properties of the packaging\<close>

subsection \<open>The task list\<close>

lemma collect_tasks_append:
  "collect_tasks rs acc =
     acc @ concat (map (\<lambda>r.
       (case hero_image r of None \<Rightarrow> [] | Some h \<Rightarrow> if h = [] then [] else [(h, url r, ''hero'')]) @
       (case og_image r of None \<Rightarrow> [] | Some g \<Rightarrow> if g = [] then [] else [(g, url r, ''og'')])) rs)"
proof (induction rs arbitrary: acc)
  case Nil
  show ?case by simp
next
  case (Cons r rs)
  show ?case
    by (simp add: Cons.IH Let_def split: option.split)
qed

lemma build_zip_None: "(fst (build_zip net s) = None) = (image_tasks (results s) = [])"
  by (simp add: build_zip_def Let_def split: prod.split)

text \<open>
  Claim C5, amended. The packager visits the results in order and emits, for each, a
  hero task when the hero image is present and not the empty string, then an OG task
  when the OG image is present and not the empty string; it returns no archive exactly
  when this task list is empty.
\<close>

theorem image_tasks_in_order:
  "image_tasks rs =
     concat (map (\<lambda>r.
       (case hero_image r of None \<Rightarrow> [] | Some h \<Rightarrow> if h = [] then [] else [(h, url r, ''hero'')]) @
       (case og_image r of None \<Rightarrow> [] | Some g \<Rightarrow> if g = [] then [] else [(g, url r, ''og'')])) rs) \<and>
   (fst (build_zip net s) = None) = (image_tasks (results s) = [])"
proof
  show "image_tasks rs =
     concat (map (\<lambda>r.
       (case hero_image r of None \<Rightarrow> [] | Some h \<Rightarrow> if h = [] then [] else [(h, url r, ''hero'')]) @
       (case og_image r of None \<Rightarrow> [] | Some g \<Rightarrow> if g = [] then [] else [(g, url r, ''og'')])) rs)"
    unfolding image_tasks_def by (simp add: collect_tasks_append)
next
  show "(fst (build_zip net s) = None) = (image_tasks (results s) = [])"
    by (rule build_zip_None)
qed

theorem image_tasks_in_order_witness:
  "image_tasks (results scraped) =
     [(''https://x/hero.jpg'', ''https://a.com/p'', ''hero''),
      (''https://x/img.png'', ''https://a.com/p'', ''og'')] \<and>
   fst (build_zip dead_net start) = None"
  using image_tasks_in_order [of "results scraped" dead_net start]
    image_tasks_in_order [of "[]" dead_net start]
  by (simp add: scraped_def start_def)

text \<open>
  Claim C5 as stated fails on a result whose hero image is the empty string, as
  \<open>scrape_images\<close> returns it for a page whose hero \<open>src\<close> is one space: the field is
  present, the claim's task list has a task for it, and the packager emits none and
  returns no archive.
\<close>

theorem empty_image_counterexample:
  "hero_image (results (scrape_loop steady_net blank_src_parse [''a.com/p''] 1 start) ! 0) = Some [] \<and>
   tasks_claimed (results (scrape_loop steady_net blank_src_parse [''a.com/p''] 1 start)) =
     [([], ''https://a.com/p'', ''hero'')] \<and>
   fst (build_zip steady_net (scrape_loop steady_net blank_src_parse [''a.com/p''] 1 start)) = None"
  by code_simp

subsection \<open>The downloads\<close>

lemma download_each_fst:
  "fst (download_each net tot idx ts zf s) = zf @ entries_of net (clock s) ts"
proof (induction ts arbitrary: idx zf s)
  case Nil
  show ?case by (simp add: entries_of_def)
next
  case (Cons task ts)
  obtain img_url page_url kind where task: "task = (img_url, page_url, kind)"
    by (cases task)
  show ?case
    unfolding task
    by (simp add: Cons.IH Let_def emit_def entries_of_def split: option.split)
qed



lemma entries_of_all_fail:
  assumes "\<forall>k < length tasks. net (t0 + k) (fst (tasks ! k)) = None"
  shows "entries_of net t0 tasks = []"
  using assms
proof (induction tasks arbitrary: t0)
  case Nil
  show ?case by (simp add: entries_of_def)
next
  case (Cons task tasks)
  obtain img_url page_url kind where task: "task = (img_url, page_url, kind)"
    by (cases task)
  from Cons.prems have first: "net t0 img_url = None"
    unfolding task by fastforce
  have "\<forall>k < length tasks. net (Suc t0 + k) (fst (tasks ! k)) = None"
  proof (intro allI impI)
    fix k
    assume "k < length tasks"
    then have "net (t0 + Suc k) (fst ((task # tasks) ! Suc k)) = None"
      using Cons.prems by (metis Suc_less_eq length_Cons)
    then show "net (Suc t0 + k) (fst (tasks ! k)) = None"
      by simp
  qed
  then have "entries_of net (Suc t0) tasks = []"
    by (rule Cons.IH)
  with first show ?case
    unfolding task by (simp add: entries_of_def)
qed



lemma build_zip_run:
  assumes "image_tasks (results s) \<noteq> []"
  shows "build_zip net s =
      (Some (fst (download_each net (length (image_tasks (results s))) 0
                    (image_tasks (results s)) [] s)),
       snd (download_each net (length (image_tasks (results s))) 0 (image_tasks (results s)) [] s))"
  using assms by (simp add: build_zip_def Let_def split: prod.split)


lemma scraped_tasks:
  "image_tasks (results scraped) =
     [(''https://x/hero.jpg'', ''https://a.com/p'', ''hero''),
      (''https://x/img.png'', ''https://a.com/p'', ''og'')]"
  by code_simp



text \<open>
  Claim C9. When there are images to download and every download fails, the packager
  still returns an archive, one with no entry, and not the absence of an archive. (The
  archive is its list of entries here; the bytes of the ZIP encoding are not modelled.)
\<close>

theorem build_zip_all_fail_empty_archive:
  assumes "image_tasks (results s) \<noteq> []"
    and "\<forall>k < length (image_tasks (results s)).
           net (clock s + k) (fst (image_tasks (results s) ! k)) = None"
  shows "fst (build_zip net s) = Some []"
proof -
  let ?tasks = "image_tasks (results s)"
  have "build_zip net s =
      (Some (fst (download_each net (length ?tasks) 0 ?tasks [] s)),
       snd (download_each net (length ?tasks) 0 ?tasks [] s))"
    using assms(1) by (rule build_zip_run)
  then have "fst (build_zip net s) = Some (entries_of net (clock s) ?tasks)"
    using download_each_fst [of net "length ?tasks" 0 ?tasks "[]" s] by simp
  also have "entries_of net (clock s) ?tasks = []"
    using assms(2) by (rule entries_of_all_fail)
  finally show ?thesis .
qed

theorem build_zip_all_fail_empty_archive_witness:
  "fst (build_zip dead_net scraped) = Some []"
proof -
  have tasks: "image_tasks (results scraped) \<noteq> []"
    by (simp add: scraped_tasks)
  have fail: "\<forall>k < length (image_tasks (results scraped)).
      dead_net (clock scraped + k) (fst (image_tasks (results scraped) ! k)) = None"
    by (simp add: dead_net_def)
  show ?thesis
    using build_zip_all_fail_empty_archive [OF tasks fail] .
qed

end
